theory Spec2Isabelle
  imports Main "HOL-Library.Multiset"
begin

section \<open>Data model\<close>

text \<open>
  A task as \<open>JiraAPI.transformTasks\<close> builds it from an issue of the search response.
  Only \<open>key\<close> takes part in the ordering logic; \<open>summary\<close> stands for the display fields
  that are copied from the issue unchanged, \<open>url\<close> is the browse link.
\<close>

record issue =
  issue_key :: string
  issue_summary :: string

record task =
  key :: string
  summary :: string
  url :: string

text \<open>
  The side panel: the fields of the \<open>TaskManager\<close> object, the parts of the document its
  methods read and write, and the parts of the browser they call
  (\<open>chrome.storage.local\<close>, interval timers). \<open>searchCalls\<close> records every invocation of
  \<open>jiraApi.searchTasks\<close> with its \<open>forceReload\<close> argument; \<open>pending\<close> holds the suspended
  activations of \<open>loadTasks\<close>, each at the \<open>await\<close> it stopped at.
\<close>

datatype await_point = AwaitSearch | AwaitSave

record TaskManager =
  tasks :: "task list"
  taskOrder :: "string list"
  isLoading :: bool
  refreshInterval :: "nat option"
  loadingHidden :: bool
  taskListHidden :: bool
  emptyStateHidden :: bool
  errorText :: string
  errorHidden :: bool
  cards :: "string list"
  taskCount :: string
  stored :: "string list option"
  timers :: "nat list"
  nextTimer :: nat
  searchCalls :: "bool list"
  pending :: "await_point list"

text \<open>How a promise has settled.\<close>

datatype settled = Fulfilled | Rejected string

section \<open>The tracker client: \<open>JiraAPI.searchTasks\<close>\<close>

text \<open>A number in a template string: its decimal digits.\<close>

definition digit :: "nat \<Rightarrow> char" where
  "digit d = char_of (of_char CHR ''0'' + d)"

fun decimal :: "nat \<Rightarrow> string" where
  "decimal n = (if 10 \<le> n then decimal (n div 10) @ [digit (n mod 10)] else [digit n])"

fun join :: "string \<Rightarrow> string list \<Rightarrow> string" where
  "join sep [] = []"
| "join sep [x] = x"
| "join sep (x # y # ys) = x @ sep @ join sep (y # ys)"

text \<open>
  The body of a response that is not ok, as lines 133 to 157 read it: \<open>response.text()\<close>
  rejects; or it gives a text, together with what \<open>JSON.parse\<close> makes of that text:
  \<open>None\<close> when it throws, \<open>null\<close>, or another value with its \<open>errorMessages\<close> (empty when
  absent) and its \<open>error\<close> (empty when absent). A text that does not parse and the value
  \<open>null\<close>, of which \<open>errorMessages\<close> cannot be read, both end in the inner \<open>catch\<close>.
\<close>

datatype json_value = JsonNull | JsonValue "string list" string

datatype error_body = BodyUnreadable | BodyText string "json_value option"

text \<open>
  A response of \<open>fetch\<close>. \<open>issues\<close> is what \<open>response.json()\<close> gives for \<open>data.issues\<close>:
  \<open>Inl\<close> carries the message of the exception raised when the body is malformed.
\<close>

record response =
  status :: nat
  statusText :: string
  errorBody :: error_body
  issues :: "string + issue list"

datatype fetch_result = FetchFailed string | Fetched response

text \<open>\<open>response.ok\<close> of the Fetch API: the status is in the range 200 to 299.\<close>

definition response_ok :: "response \<Rightarrow> bool" where
  "response_ok r = (200 \<le> status r \<and> status r \<le> 299)"

text \<open>\<open>jiraUrl.replace(/\/$/, '')\<close>: one trailing slash is removed.\<close>

definition baseUrl :: "string \<Rightarrow> string" where
  "baseUrl u = (if u \<noteq> [] \<and> last u = CHR ''/'' then butlast u else u)"

definition transformTasks :: "string \<Rightarrow> issue list \<Rightarrow> task list" where
  "transformTasks jiraUrl is =
     map (\<lambda>i. \<lparr>key = issue_key i, summary = issue_summary i,
               url = baseUrl jiraUrl @ ''/browse/'' @ issue_key i\<rparr>) is"

definition errorMessage :: "response \<Rightarrow> string" where
  "errorMessage r =
     (let base = ''HTTP '' @ decimal (status r) @ '': '' @ statusText r in
      case errorBody r of
        BodyUnreadable \<Rightarrow> base
      | BodyText b parsed \<Rightarrow>
          (let raw = (if b \<noteq> [] \<and> length b < 200 then base @ '' - '' @ b else base) in
           case parsed of
             None \<Rightarrow> raw
           | Some JsonNull \<Rightarrow> raw
           | Some (JsonValue msgs err) \<Rightarrow>
               if msgs \<noteq> [] then join '', '' msgs else if err \<noteq> [] then err else base))"

text \<open>
  \<open>searchTasks\<close> as a function of the configured URL and of what \<open>fetch\<close> answers to the
  search request: \<open>Inl\<close> is the message of the \<open>Error\<close> it throws, \<open>Inr\<close> the tasks it returns.
  The query string it builds only goes into the request and is left out, and so is the
  lookup of the current user, whose errors \<open>getCurrentUserKey\<close> catches.
\<close>

definition searchTasks :: "string \<Rightarrow> fetch_result \<Rightarrow> string + task list" where
  "searchTasks jiraUrl fr =
     (if jiraUrl = [] then Inl ''JIRA URL not configured''
      else case fr of
        FetchFailed m \<Rightarrow> Inl m
      | Fetched r \<Rightarrow>
          if \<not> response_ok r then
            (if status r = 401 then Inl ''Not authenticated. Please log in to JIRA first.''
             else if status r = 403 then Inl ''Access denied. Check your JIRA permissions.''
             else if status r = 404 then Inl ''JIRA API endpoint not found. Check your JIRA URL.''
             else Inl (''Failed to fetch tasks: '' @ errorMessage r))
          else (case issues r of
                  Inl m \<Rightarrow> Inl m
                | Inr is \<Rightarrow> Inr (transformTasks jiraUrl is)))"

section \<open>The document\<close>

definition showLoading :: "bool \<Rightarrow> TaskManager \<Rightarrow> TaskManager" where
  "showLoading show s = s\<lparr>loadingHidden := \<not> show, taskListHidden := show\<rparr>"

definition showError :: "string \<Rightarrow> TaskManager \<Rightarrow> TaskManager" where
  "showError message s = s\<lparr>errorText := message, errorHidden := False\<rparr>"

definition hideError :: "TaskManager \<Rightarrow> TaskManager" where
  "hideError s = s\<lparr>errorHidden := True\<rparr>"

definition showEmptyState :: "TaskManager \<Rightarrow> TaskManager" where
  "showEmptyState s = s\<lparr>emptyStateHidden := False, taskListHidden := True\<rparr>"

definition hideEmptyState :: "TaskManager \<Rightarrow> TaskManager" where
  "hideEmptyState s = s\<lparr>emptyStateHidden := True, taskListHidden := False\<rparr>"

text \<open>
  \<open>renderTasks\<close>: the container is emptied; with tasks, one card per entry of the order
  list that names a fetched task (\<open>find\<close> takes the first task with that key).
\<close>

definition sortedTasks :: "TaskManager \<Rightarrow> task list" where
  "sortedTasks s =
     List.map_filter (\<lambda>k. find (\<lambda>t. key t = k) (tasks s)) (taskOrder s)"

definition renderTasks :: "TaskManager \<Rightarrow> TaskManager" where
  "renderTasks s =
     (let s1 = s\<lparr>cards := []\<rparr> in
      if tasks s1 = [] then showEmptyState s1
      else (hideEmptyState s1)\<lparr>cards := map key (sortedTasks s1)\<rparr>)"

text \<open>\<open>updateStats\<close>, without the clock reading of \<open>lastUpdate\<close>.\<close>

definition updateStats :: "TaskManager \<Rightarrow> TaskManager" where
  "updateStats s =
     (let count = length (tasks s) in
      s\<lparr>taskCount := decimal count @ '' task'' @ (if count \<noteq> 1 then ''s'' else [])\<rparr>)"

section \<open>The order list\<close>

text \<open>
  Lines 45 to 55 of \<open>loadTasks\<close>: the new value of \<open>this.taskOrder\<close> from its old value and
  the fetched tasks.
\<close>

definition reconcile :: "string list \<Rightarrow> task list \<Rightarrow> string list" where
  "reconcile order ts =
     (if length order = 0 then map key ts
      else
        let existingKeys = set (map key ts);
            kept = filter (\<lambda>k. k \<in> existingKeys) order;
            newKeys = filter (\<lambda>k. k \<notin> set kept) (map key ts)
        in kept @ newKeys)"

text \<open>
  \<open>chrome.storage.local.set\<close>: \<open>ok\<close> says whether the store takes the write; the callback
  is called either way.
\<close>

definition storage_set :: "bool \<Rightarrow> string list \<Rightarrow> TaskManager \<Rightarrow> TaskManager" where
  "storage_set ok v s = (if ok then s\<lparr>stored := Some v\<rparr> else s)"

definition saveTaskOrder :: "bool \<Rightarrow> TaskManager \<Rightarrow> TaskManager" where
  "saveTaskOrder ok s = storage_set ok (taskOrder s) s"

text \<open>
  \<open>updateTaskOrder\<close>, called on drop: the order list becomes the keys of the cards in
  document order, and is saved.
\<close>

definition updateTaskOrder :: "bool \<Rightarrow> TaskManager \<Rightarrow> TaskManager" where
  "updateTaskOrder ok s = saveTaskOrder ok (s\<lparr>taskOrder := cards s\<rparr>)"

text \<open>
  What the callback of a storage read receives: no argument when the read failed (the
  browser then sets \<open>chrome.runtime.lastError\<close>), otherwise an object with the value of the
  key asked for, which is absent when nothing is stored under it. For
  \<open>chrome.storage.local.get(['taskOrder'], ...)\<close> the value is the stored order list.
\<close>

datatype 'a get_result = NoItems | Items 'a

definition storage_get :: "bool \<Rightarrow> TaskManager \<Rightarrow> string list option get_result" where
  "storage_get ok s = (if ok then Items (stored s) else NoItems)"

text \<open>
  \<open>loadTaskOrder\<close>: the promise has no reject path. Reading \<open>result.taskOrder\<close> of a
  missing argument throws inside the callback, so \<open>resolve\<close> is never reached and the
  promise stays pending: \<open>None\<close>.
\<close>

definition loadTaskOrder ::
    "string list option get_result \<Rightarrow> TaskManager \<Rightarrow> settled option \<times> TaskManager" where
  "loadTaskOrder result s =
     (case result of
        NoItems \<Rightarrow> (None, s)
      | Items v \<Rightarrow>
          (Some Fulfilled, s\<lparr>taskOrder := (case v of Some ks \<Rightarrow> ks | None \<Rightarrow> [])\<rparr>))"

section \<open>\<open>loadTasks\<close>\<close>

text \<open>
  The function runs in three pieces, cut at its two \<open>await\<close>s. The first two return how
  the promise of \<open>loadTasks\<close> settled, or \<open>None\<close> when the activation is suspended at the
  next \<open>await\<close>; the last one always runs to the end.
\<close>

definition loadTasks_call :: "bool \<Rightarrow> TaskManager \<Rightarrow> settled option \<times> TaskManager" where
  "loadTasks_call forceReload s =
     (if isLoading s then (Some Fulfilled, s)
      else
        let s1 = hideError (showLoading True (s\<lparr>isLoading := True\<rparr>)) in
        (None, s1\<lparr>searchCalls := searchCalls s1 @ [forceReload],
                  pending := pending s1 @ [AwaitSearch]\<rparr>))"

definition loadTasks_finally :: "TaskManager \<Rightarrow> TaskManager" where
  "loadTasks_finally s = showLoading False (s\<lparr>isLoading := False\<rparr>)"

text \<open>
  After \<open>await this.jiraApi.searchTasks(forceReload)\<close>: a rejection goes to \<open>catch\<close> and
  \<open>finally\<close>; a result is assigned, reconciled, and \<open>saveTaskOrder\<close> is awaited.
\<close>

definition loadTasks_searched ::
    "string + task list \<Rightarrow> bool \<Rightarrow> TaskManager \<Rightarrow> settled option \<times> TaskManager" where
  "loadTasks_searched outcome ok s =
     (case outcome of
        Inl message \<Rightarrow> (Some Fulfilled, loadTasks_finally (showError message s))
      | Inr ts \<Rightarrow>
          let s1 = s\<lparr>tasks := ts\<rparr>;
              s2 = s1\<lparr>taskOrder := reconcile (taskOrder s1) (tasks s1)\<rparr>;
              s3 = saveTaskOrder ok s2
          in (None, s3\<lparr>pending := pending s3 @ [AwaitSave]\<rparr>))"

definition loadTasks_saved :: "TaskManager \<Rightarrow> settled \<times> TaskManager" where
  "loadTasks_saved s =
     (let s1 = updateStats (renderTasks s);
          s2 = (if length (tasks s1) = 0 then showEmptyState s1 else s1)
      in (Fulfilled, loadTasks_finally s2))"

text \<open>Removing the first suspended activation that waits at a given point.\<close>

definition resume :: "await_point \<Rightarrow> TaskManager \<Rightarrow> TaskManager" where
  "resume p s = s\<lparr>pending := remove1 p (pending s)\<rparr>"

text \<open>
  One whole activation, given what the tracker client and the store answer: the call, then
  its continuation when the search settles, then its continuation when the save settles.
\<close>

definition loadTasks ::
    "bool \<Rightarrow> string + task list \<Rightarrow> bool \<Rightarrow> TaskManager \<Rightarrow> settled \<times> TaskManager" where
  "loadTasks forceReload outcome ok s =
     (case loadTasks_call forceReload s of
        (Some p, s1) \<Rightarrow> (p, s1)
      | (None, s1) \<Rightarrow>
          (case loadTasks_searched outcome ok (resume AwaitSearch s1) of
             (Some p, s2) \<Rightarrow> (p, s2)
           | (None, s2) \<Rightarrow> loadTasks_saved (resume AwaitSave s2)))"

section \<open>Timer and messages\<close>

text \<open>
  \<open>setInterval\<close> hands out a fresh handle, a number greater than zero; \<open>clearInterval\<close>
  removes the timer with the given handle.
\<close>

definition setInterval :: "TaskManager \<Rightarrow> nat \<times> TaskManager" where
  "setInterval s =
     (nextTimer s, s\<lparr>timers := timers s @ [nextTimer s], nextTimer := Suc (nextTimer s)\<rparr>)"

definition clearInterval :: "nat \<Rightarrow> TaskManager \<Rightarrow> TaskManager" where
  "clearInterval h s = s\<lparr>timers := removeAll h (timers s)\<rparr>"

text \<open>
  The callback of \<open>setupAutoRefresh\<close>, with what \<open>chrome.storage.sync.get(['autoRefresh'], ...)\<close>
  hands it: the stored setting, \<open>None\<close> when it was never saved. The test
  \<open>if (this.refreshInterval)\<close> is false for \<open>null\<close> and for the handle 0. After a failed read
  \<open>result.autoRefresh\<close> throws, once the old timer is cleared, and the callback ends there.
\<close>

definition setupAutoRefresh :: "bool option get_result \<Rightarrow> TaskManager \<Rightarrow> TaskManager" where
  "setupAutoRefresh result s =
     (let s1 = (case refreshInterval s of
                  None \<Rightarrow> s
                | Some h \<Rightarrow>
                    if h \<noteq> 0 then (clearInterval h s)\<lparr>refreshInterval := None\<rparr> else s)
      in case result of
           NoItems \<Rightarrow> s1
         | Items autoRefresh \<Rightarrow>
             if autoRefresh \<noteq> Some False
             then (let (h, s2) = setInterval s1 in s2\<lparr>refreshInterval := Some h\<rparr>)
             else s1)"

text \<open>Auto-refresh is on unless the setting was read and is \<open>false\<close>.\<close>

fun enabled :: "bool option get_result \<Rightarrow> bool" where
  "enabled (Items autoRefresh) = (autoRefresh \<noteq> Some False)"
| "enabled NoItems = False"

text \<open>
  The listener of \<open>setupMessageListener\<close>: the replies it sends for a request, from how the
  promise of \<open>this.loadTasks(true)\<close> settled (\<open>then\<close> on fulfilment, \<open>catch\<close> on rejection).
\<close>

datatype reply = Reloaded | ReplyError string

definition reload_reply :: "settled \<Rightarrow> reply list" where
  "reload_reply p = (case p of Fulfilled \<Rightarrow> [Reloaded] | Rejected m \<Rightarrow> [ReplyError m])"

definition onMessage ::
    "string \<Rightarrow> string + task list \<Rightarrow> bool \<Rightarrow> TaskManager \<Rightarrow> reply list \<times> TaskManager" where
  "onMessage action outcome ok s =
     (if action = ''reload-tasks'' then
        (let (p, s1) = loadTasks True outcome ok s in (reload_reply p, s1))
      else ([], s))"

section \<open>The event loop\<close>

text \<open>
  What can happen to the panel, one event at a time: a trigger calls \<open>loadTasks\<close>; the
  pending search settles; the pending save settles; a drop calls \<open>updateTaskOrder\<close>; the
  callback of \<open>setupAutoRefresh\<close> runs; the callback of \<open>loadTaskOrder\<close> runs. A drop
  comes with the order \<open>ks\<close> in which the drag has left the cards.
\<close>

datatype event =
    Refresh bool
  | SearchSettled "string + task list" bool
  | SaveSettled
  | Drop "string list" bool
  | AutoRefresh "bool option get_result"
  | OrderLoaded "string list option get_result"

fun step :: "event \<Rightarrow> TaskManager \<Rightarrow> TaskManager" where
  "step (Refresh forceReload) s = snd (loadTasks_call forceReload s)"
| "step (SearchSettled outcome ok) s =
     (if AwaitSearch \<in> set (pending s)
      then snd (loadTasks_searched outcome ok (resume AwaitSearch s)) else s)"
| "step SaveSettled s =
     (if AwaitSave \<in> set (pending s)
      then snd (loadTasks_saved (resume AwaitSave s)) else s)"
| "step (Drop ks ok) s = updateTaskOrder ok (s\<lparr>cards := ks\<rparr>)"
| "step (AutoRefresh result) s = setupAutoRefresh result s"
| "step (OrderLoaded result) s = snd (loadTaskOrder result s)"

text \<open>The events that resume a suspended activation of \<open>loadTasks\<close>.\<close>

fun settles :: "event \<Rightarrow> bool" where
  "settles (SearchSettled outcome ok) = True"
| "settles SaveSettled = True"
| "settles e = False"

definition run :: "event list \<Rightarrow> TaskManager \<Rightarrow> TaskManager" where
  "run es s = foldl (\<lambda>s e. step e s) s es"

text \<open>
  The panel as the constructor leaves it, in a browser whose store holds \<open>persisted\<close>:
  nothing fetched, no order, idle, no timer, no call made, nothing suspended; what \<open>init\<close>
  does afterwards are events of the loop. The document
  starts with the task list shown and the loading indicator, the error and the empty state
  hidden; the first timer handle is 1.
\<close>

definition TaskManager_new :: "string list option \<Rightarrow> TaskManager" where
  "TaskManager_new persisted =
     \<lparr>tasks = [], taskOrder = [], isLoading = False, refreshInterval = None,
      loadingHidden = True, taskListHidden = False, emptyStateHidden = True,
      errorText = [], errorHidden = True, cards = [], taskCount = [],
      stored = persisted, timers = [], nextTimer = 1, searchCalls = [], pending = []\<rparr>"

text \<open>
  Two invariants of the event loop. \<open>single_flight\<close>: an activation of \<open>loadTasks\<close> is
  suspended exactly while the busy flag is set, and then only one. \<open>one_timer\<close>: the only
  active timer is the one \<open>refreshInterval\<close> holds, and no handle is 0.
\<close>

definition single_flight :: "TaskManager \<Rightarrow> bool" where
  "single_flight s = (if isLoading s then length (pending s) = 1 else pending s = [])"

definition one_timer :: "TaskManager \<Rightarrow> bool" where
  "one_timer s =
     (timers s = (case refreshInterval s of None \<Rightarrow> [] | Some h \<Rightarrow> [h]) \<and>
      refreshInterval s \<noteq> Some 0 \<and> 0 < nextTimer s)"

text \<open>
  The events the panel can receive. The tracker returns issues with pairwise distinct keys
  (a key identifies an issue); a drag moves cards within the list, so a drop finds a
  permutation of the cards that were rendered; the callback of a read gets what the store
  holds, or nothing when the read failed.
\<close>

fun admissible :: "event \<Rightarrow> TaskManager \<Rightarrow> bool" where
  "admissible (SearchSettled outcome ok) s =
     (case outcome of Inl message \<Rightarrow> True | Inr ts \<Rightarrow> distinct (map key ts))"
| "admissible (Drop ks ok) s = (mset ks = mset (cards s))"
| "admissible (OrderLoaded result) s = (result = NoItems \<or> result = Items (stored s))"
| "admissible e s = True"

fun admissible_run :: "event list \<Rightarrow> TaskManager \<Rightarrow> bool" where
  "admissible_run [] s = True"
| "admissible_run (e # es) s = (admissible e s \<and> admissible_run es (step e s))"

text \<open>
  An order list has no duplicates. \<open>order_lists\<close>: that holds of the order list in memory,
  of the keys of the rendered cards and of the stored order.
\<close>

definition no_duplicates :: "string list option \<Rightarrow> bool" where
  "no_duplicates v = (case v of None \<Rightarrow> True | Some ks \<Rightarrow> distinct ks)"

definition order_lists :: "TaskManager \<Rightarrow> bool" where
  "order_lists s = (distinct (taskOrder s) \<and> distinct (cards s) \<and> no_duplicates (stored s))"

section \<open>Basic facts\<close>

declare decimal.simps [simp del]

lemmas doc_defs = showLoading_def showError_def hideError_def showEmptyState_def
  hideEmptyState_def renderTasks_def updateStats_def

lemmas loadTasks_defs = loadTasks_def loadTasks_call_def loadTasks_searched_def
  loadTasks_saved_def loadTasks_finally_def resume_def saveTaskOrder_def storage_set_def

lemmas timer_defs = setupAutoRefresh_def setInterval_def clearInterval_def

subsection \<open>The order list\<close>

lemma reconcile_Nil: "reconcile [] ts = map key ts"
  by (simp add: reconcile_def)

text \<open>
  Both branches of the code give the same arrangement: the entries of the old order that are
  fetched, then the fetched keys the old order does not have.
\<close>

lemma reconcile_arranged:
  "reconcile order ts =
     filter (\<lambda>k. k \<in> set (map key ts)) order @ filter (\<lambda>k. k \<notin> set order) (map key ts)"
proof (cases "order = []")
  case True
  then show ?thesis by (simp add: reconcile_def)
next
  case False
  have "filter (\<lambda>k. k \<notin> set (filter (\<lambda>k. k \<in> set (map key ts)) order)) (map key ts)
      = filter (\<lambda>k. k \<notin> set order) (map key ts)"
    by (rule filter_cong) auto
  with False show ?thesis by (simp add: reconcile_def Let_def)
qed

lemma set_reconcile: "set (reconcile order ts) = set (map key ts)"
  by (auto simp: reconcile_arranged)

lemma distinct_reconcile:
  "distinct order \<Longrightarrow> distinct (map key ts) \<Longrightarrow> distinct (reconcile order ts)"
  by (auto simp: reconcile_arranged)

lemma count_list_distinct: "distinct xs \<Longrightarrow> x \<in> set xs \<Longrightarrow> count_list xs x = 1"
  by (induction xs) auto

lemma reconcile_idem: "reconcile (reconcile order ts) ts = reconcile order ts"
proof -
  let ?r = "reconcile order ts"
  have s: "set ?r = set (map key ts)" by (rule set_reconcile)
  have "reconcile ?r ts =
          filter (\<lambda>k. k \<in> set (map key ts)) ?r @ filter (\<lambda>k. k \<notin> set ?r) (map key ts)"
    by (rule reconcile_arranged)
  also have "filter (\<lambda>k. k \<in> set (map key ts)) ?r = ?r"
    using s by (simp only: filter_id_conv) blast
  also have "filter (\<lambda>k. k \<notin> set ?r) (map key ts) = []"
    using s by (simp only: filter_empty_conv) blast
  finally show ?thesis by simp
qed

subsection \<open>One activation of \<open>loadTasks\<close>\<close>

lemma loadTasks_busy: "isLoading s \<Longrightarrow> loadTasks f outcome ok s = (Fulfilled, s)"
  by (simp add: loadTasks_def loadTasks_call_def)

lemma loadTasks_settles: "fst (loadTasks f outcome ok s) = Fulfilled"
  by (simp add: loadTasks_defs Let_def split: sum.split)

lemma loadTasks_idle_after: "\<not> isLoading s \<Longrightarrow> \<not> isLoading (snd (loadTasks f outcome ok s))"
  by (simp add: loadTasks_defs doc_defs Let_def split: sum.split)

lemma loadTasks_fetched:
  assumes "\<not> isLoading s"
  shows "taskOrder (snd (loadTasks f (Inr ts) ok s)) = reconcile (taskOrder s) ts"
    and "tasks (snd (loadTasks f (Inr ts) ok s)) = ts"
    and "stored (snd (loadTasks f (Inr ts) ok s)) =
           (if ok then Some (reconcile (taskOrder s) ts) else stored s)"
  using assms by (simp_all add: loadTasks_defs doc_defs Let_def)

lemma loadTasks_failed:
  assumes "\<not> isLoading s"
  shows "isLoading (snd (loadTasks f (Inl m) ok s)) = False"
    and "errorText (snd (loadTasks f (Inl m) ok s)) = m"
    and "errorHidden (snd (loadTasks f (Inl m) ok s)) = False"
    and "tasks (snd (loadTasks f (Inl m) ok s)) = tasks s"
    and "taskOrder (snd (loadTasks f (Inl m) ok s)) = taskOrder s"
    and "cards (snd (loadTasks f (Inl m) ok s)) = cards s"
    and "stored (snd (loadTasks f (Inl m) ok s)) = stored s"
  using assms by (simp_all add: loadTasks_defs doc_defs Let_def)

lemma searchTasks_401:
  "jiraUrl \<noteq> [] \<Longrightarrow> status r = 401 \<Longrightarrow>
   searchTasks jiraUrl (Fetched r) = Inl ''Not authenticated. Please log in to JIRA first.''"
  by (simp add: searchTasks_def response_ok_def)

subsection \<open>Runs of the event loop\<close>

lemma run_Nil: "run [] s = s"
  by (simp add: run_def)

lemma run_Cons: "run (e # es) s = run es (step e s)"
  by (simp add: run_def)

lemma run_append: "run (es @ es') s = run es' (run es s)"
  by (simp add: run_def)

lemma step_single_flight: "single_flight s \<Longrightarrow> single_flight (step e s)"
proof (cases e)
  case (Refresh f)
  assume "single_flight s"
  with Refresh show ?thesis
    by (simp add: single_flight_def loadTasks_call_def doc_defs split: if_splits)
next
  case (SearchSettled outcome ok)
  assume "single_flight s"
  with SearchSettled show ?thesis
    by (cases outcome)
       (auto simp: single_flight_def loadTasks_defs doc_defs Let_def length_Suc_conv
             split: if_splits)
next
  case SaveSettled
  assume "single_flight s"
  with SaveSettled show ?thesis
    by (auto simp: single_flight_def loadTasks_defs doc_defs Let_def length_Suc_conv
             split: if_splits)
next
  case (Drop ks ok)
  assume "single_flight s"
  with Drop show ?thesis
    by (simp add: single_flight_def updateTaskOrder_def saveTaskOrder_def storage_set_def)
next
  case (AutoRefresh r)
  assume "single_flight s"
  with AutoRefresh show ?thesis
    by (simp add: single_flight_def timer_defs Let_def split: option.splits get_result.splits)
next
  case (OrderLoaded result)
  assume "single_flight s"
  with OrderLoaded show ?thesis
    by (simp add: single_flight_def loadTaskOrder_def split: get_result.splits)
qed

lemma run_single_flight: "single_flight s \<Longrightarrow> single_flight (run es s)"
  by (induction es arbitrary: s) (simp_all add: run_Nil run_Cons step_single_flight)

lemma single_flight_new: "single_flight (TaskManager_new persisted)"
  by (simp add: single_flight_def TaskManager_new_def)

text \<open>While the busy flag is set, only a settling event can clear it or reach the client.\<close>

lemma step_busy:
  "isLoading s \<Longrightarrow> \<not> settles e \<Longrightarrow>
   isLoading (step e s) \<and> searchCalls (step e s) = searchCalls s"
  by (cases e)
     (simp_all add: loadTasks_call_def updateTaskOrder_def saveTaskOrder_def storage_set_def
        loadTaskOrder_def timer_defs Let_def split: option.splits get_result.splits)

lemma run_busy:
  "isLoading s \<Longrightarrow> \<forall>e \<in> set es. \<not> settles e \<Longrightarrow>
   isLoading (run es s) \<and> searchCalls (run es s) = searchCalls s"
proof (induction es arbitrary: s)
  case Nil
  then show ?case by (simp add: run_Nil)
next
  case (Cons e es)
  from Cons.prems have b: "isLoading (step e s)" and c: "searchCalls (step e s) = searchCalls s"
    using step_busy [of s e] by simp_all
  from Cons.IH [OF b] Cons.prems c show ?case by (simp add: run_Cons)
qed

lemma step_one_timer: "one_timer s \<Longrightarrow> one_timer (step e s)"
proof (cases e)
  case (AutoRefresh r)
  assume "one_timer s"
  with AutoRefresh show ?thesis
    by (auto simp: one_timer_def timer_defs Let_def split: option.splits get_result.splits)
next
  case (Refresh f)
  assume "one_timer s"
  with Refresh show ?thesis
    by (simp add: one_timer_def loadTasks_call_def doc_defs)
next
  case (SearchSettled outcome ok)
  assume "one_timer s"
  with SearchSettled show ?thesis
    by (cases outcome) (simp_all add: one_timer_def loadTasks_defs doc_defs Let_def)
next
  case SaveSettled
  assume "one_timer s"
  with SaveSettled show ?thesis
    by (simp add: one_timer_def loadTasks_defs doc_defs Let_def)
next
  case (Drop ks ok)
  assume "one_timer s"
  with Drop show ?thesis
    by (simp add: one_timer_def updateTaskOrder_def saveTaskOrder_def storage_set_def)
next
  case (OrderLoaded result)
  assume "one_timer s"
  with OrderLoaded show ?thesis
    by (simp add: one_timer_def loadTaskOrder_def split: get_result.splits)
qed

lemma run_one_timer: "one_timer s \<Longrightarrow> one_timer (run es s)"
  by (induction es arbitrary: s) (simp_all add: run_Nil run_Cons step_one_timer)

lemma one_timer_new: "one_timer (TaskManager_new persisted)"
  by (simp add: one_timer_def TaskManager_new_def)

lemma setupAutoRefresh_timers:
  "one_timer s \<Longrightarrow>
   timers (setupAutoRefresh r s) = (if enabled r then [nextTimer s] else [])"
  by (cases r) (auto simp: one_timer_def timer_defs Let_def split: option.splits)

text \<open>
  Every step keeps the three order lists free of duplicates: the reconcile step and the
  rendering filter the order list and add fetched keys it does not have, a drop permutes the
  cards, a restore takes what was saved.
\<close>

lemma keys_sortedTasks:
  "map key (sortedTasks s) = filter (\<lambda>k. k \<in> set (map key (tasks s))) (taskOrder s)"
proof -
  have "map key (List.map_filter (\<lambda>k. find (\<lambda>t. key t = k) ts) ks) =
          filter (\<lambda>k. k \<in> set (map key ts)) ks" for ts :: "task list" and ks
  proof (induction ks)
    case Nil
    show ?case by (simp add: List.map_filter_simps)
  next
    case (Cons k ks)
    show ?case
    proof (cases "find (\<lambda>t. key t = k) ts")
      case None
      then have "k \<notin> set (map key ts)" by (auto simp: find_None_iff)
      with None Cons show ?thesis by (simp add: List.map_filter_simps)
    next
      case (Some t)
      then have "key t = k" and "t \<in> set ts" by (auto simp: find_Some_iff)
      then have "k \<in> set (map key ts)" by auto
      with Some Cons \<open>key t = k\<close> show ?thesis by (simp add: List.map_filter_simps)
    qed
  qed
  then show ?thesis by (simp add: sortedTasks_def)
qed

lemma distinct_sortedTasks:
  "distinct (taskOrder s) \<Longrightarrow> distinct (map key (sortedTasks s))"
  by (simp add: keys_sortedTasks)

lemma step_order_lists:
  assumes "order_lists s" and "admissible e s"
  shows "order_lists (step e s)"
proof (cases e)
  case (Refresh f)
  with assms show ?thesis by (simp add: order_lists_def loadTasks_call_def doc_defs)
next
  case (SearchSettled outcome ok)
  show ?thesis
  proof (cases outcome)
    case (Inl message)
    with SearchSettled assms show ?thesis
      by (simp add: order_lists_def loadTasks_defs doc_defs)
  next
    case (Inr ts)
    with SearchSettled assms have "distinct (reconcile (taskOrder s) ts)"
      by (simp add: order_lists_def distinct_reconcile)
    with Inr SearchSettled assms show ?thesis
      by (simp add: order_lists_def no_duplicates_def loadTasks_defs doc_defs Let_def)
  qed
next
  case SaveSettled
  with assms show ?thesis
    by (simp add: order_lists_def loadTasks_defs doc_defs Let_def distinct_sortedTasks)
next
  case (Drop ks ok)
  with assms have "distinct ks"
    using mset_eq_imp_distinct_iff [of ks "cards s"] by (simp add: order_lists_def)
  with Drop assms show ?thesis
    by (simp add: order_lists_def no_duplicates_def updateTaskOrder_def saveTaskOrder_def
          storage_set_def)
next
  case (AutoRefresh r)
  with assms show ?thesis
    by (cases r) (simp_all add: order_lists_def timer_defs Let_def split: option.splits)
next
  case (OrderLoaded result)
  with assms show ?thesis
    by (auto simp: order_lists_def no_duplicates_def loadTaskOrder_def split: option.splits)
qed

lemma run_order_lists:
  "order_lists s \<Longrightarrow> admissible_run es s \<Longrightarrow> order_lists (run es s)"
  by (induction es arbitrary: s) (simp_all add: run_Nil run_Cons step_order_lists)

lemma order_lists_new: "no_duplicates persisted \<Longrightarrow> order_lists (TaskManager_new persisted)"
  by (simp add: order_lists_def TaskManager_new_def)


section \<open>The reconcile step\<close>

text \<open>
  Claim C1. Let the fetched tasks have pairwise distinct keys. For every order list, that is
  every list of keys without duplicates, the reconcile step gives the entries of the order
  that are keys of fetched tasks, in their order, followed by the fetched keys that the
  order does not have, in fetch order; each fetched key occurs in it exactly once. And for
  every prior order the panel can hold, that is in every idle state it reaches from its
  construction over a store that holds an order list or nothing, the order list that
  \<open>loadTasks\<close> leaves is the result of that step, arranged in that way, and holds exactly the
  fetched keys, each of them once. The fetched list may also be empty.
\<close>

theorem loadTasks_reconciles_order:
  assumes "distinct (map key ts)"
  shows "(distinct order \<longrightarrow>
            reconcile order ts =
              filter (\<lambda>k. k \<in> set (map key ts)) order @
              filter (\<lambda>k. k \<notin> set order) (map key ts) \<and>
            (\<forall>k \<in> set (map key ts). count_list (reconcile order ts) k = 1)) \<and>
         (no_duplicates persisted \<and> admissible_run es (TaskManager_new persisted) \<and>
          \<not> isLoading (run es (TaskManager_new persisted)) \<longrightarrow>
            (let s = run es (TaskManager_new persisted);
                 order' = taskOrder (snd (loadTasks f (Inr ts) ok s))
             in order' = reconcile (taskOrder s) ts \<and>
                order' = filter (\<lambda>k. k \<in> set (map key ts)) (taskOrder s) @
                         filter (\<lambda>k. k \<notin> set (taskOrder s)) (map key ts) \<and>
                set order' = set (map key ts) \<and>
                (\<forall>k \<in> set (map key ts). count_list order' k = 1)))"
proof -
  have once: "\<forall>k \<in> set (map key ts). count_list (reconcile xs ts) k = 1"
    if "distinct xs" for xs
  proof -
    have "distinct (reconcile xs ts)" using that assms by (rule distinct_reconcile)
    then show ?thesis by (simp add: count_list_distinct set_reconcile)
  qed
  have arranged: "reconcile xs ts =
      filter (\<lambda>k. k \<in> set (map key ts)) xs @ filter (\<lambda>k. k \<notin> set xs) (map key ts)" for xs
    by (rule reconcile_arranged)
  have pure: "distinct order \<longrightarrow>
            reconcile order ts =
              filter (\<lambda>k. k \<in> set (map key ts)) order @
              filter (\<lambda>k. k \<notin> set order) (map key ts) \<and>
            (\<forall>k \<in> set (map key ts). count_list (reconcile order ts) k = 1)"
    using once [of order] arranged [of order] by blast
  have reached: "(let s = run es (TaskManager_new persisted);
                 order' = taskOrder (snd (loadTasks f (Inr ts) ok s))
             in order' = reconcile (taskOrder s) ts \<and>
                order' = filter (\<lambda>k. k \<in> set (map key ts)) (taskOrder s) @
                         filter (\<lambda>k. k \<notin> set (taskOrder s)) (map key ts) \<and>
                set order' = set (map key ts) \<and>
                (\<forall>k \<in> set (map key ts). count_list order' k = 1))"
    if p: "no_duplicates persisted" and a: "admissible_run es (TaskManager_new persisted)"
      and i: "\<not> isLoading (run es (TaskManager_new persisted))"
  proof -
    let ?s = "run es (TaskManager_new persisted)"
    have "order_lists ?s" using order_lists_new [OF p] a by (rule run_order_lists)
    then have d: "distinct (taskOrder ?s)" by (simp add: order_lists_def)
    have o: "taskOrder (snd (loadTasks f (Inr ts) ok ?s)) = reconcile (taskOrder ?s) ts"
      using i by (rule loadTasks_fetched(1))
    have s: "set (reconcile (taskOrder ?s) ts) = set (map key ts)" by (rule set_reconcile)
    have c: "\<forall>k \<in> set (map key ts). count_list (reconcile (taskOrder ?s) ts) k = 1"
      using d by (rule once)
    show ?thesis
      unfolding Let_def o
    proof (intro conjI)
      show "reconcile (taskOrder ?s) ts = reconcile (taskOrder ?s) ts" by (rule refl)
      show "reconcile (taskOrder ?s) ts =
              filter (\<lambda>k. k \<in> set (map key ts)) (taskOrder ?s) @
              filter (\<lambda>k. k \<notin> set (taskOrder ?s)) (map key ts)"
        by (rule arranged)
      show "set (reconcile (taskOrder ?s) ts) = set (map key ts)" by (rule s)
      show "\<forall>k \<in> set (map key ts). count_list (reconcile (taskOrder ?s) ts) k = 1"
        by (rule c)
    qed
  qed
  from pure reached show ?thesis by blast
qed

text \<open>
  The scenario of the specification: the order A, B, C restored from the store, and the
  fetched tasks B, D.
\<close>

theorem loadTasks_reconciles_order_witness:
  "distinct (map key [\<lparr>key = ''B'', summary = [], url = []\<rparr>, \<lparr>key = ''D'', summary = [], url = []\<rparr>]) \<and>
   no_duplicates (Some [''A'', ''B'', ''C'']) \<and>
   admissible_run [OrderLoaded (Items (Some [''A'', ''B'', ''C'']))]
     (TaskManager_new (Some [''A'', ''B'', ''C''])) \<and>
   \<not> isLoading (run [OrderLoaded (Items (Some [''A'', ''B'', ''C'']))]
     (TaskManager_new (Some [''A'', ''B'', ''C'']))) \<and>
   taskOrder (run [OrderLoaded (Items (Some [''A'', ''B'', ''C'']))]
     (TaskManager_new (Some [''A'', ''B'', ''C'']))) = [''A'', ''B'', ''C''] \<and>
   taskOrder (snd (loadTasks True
      (Inr [\<lparr>key = ''B'', summary = [], url = []\<rparr>, \<lparr>key = ''D'', summary = [], url = []\<rparr>]) True
      (run [OrderLoaded (Items (Some [''A'', ''B'', ''C'']))]
         (TaskManager_new (Some [''A'', ''B'', ''C'']))))) = [''B'', ''D'']"
proof -
  let ?ts = "[\<lparr>key = ''B'', summary = [], url = []\<rparr>, \<lparr>key = ''D'', summary = [], url = []\<rparr>]"
  let ?es = "[OrderLoaded (Items (Some [''A'', ''B'', ''C'']))]"
  let ?p = "Some [''A'', ''B'', ''C'']"
  let ?s = "run ?es (TaskManager_new ?p)"
  have h1: "distinct (map key ?ts)" by simp
  have h2: "no_duplicates ?p" by (simp add: no_duplicates_def)
  have h3: "admissible_run ?es (TaskManager_new ?p)" by (simp add: TaskManager_new_def)
  have h4: "\<not> isLoading ?s" by (simp add: run_def loadTaskOrder_def TaskManager_new_def)
  have h5: "taskOrder ?s = [''A'', ''B'', ''C'']"
    by (simp add: run_def loadTaskOrder_def TaskManager_new_def)
  have "taskOrder (snd (loadTasks True (Inr ?ts) True ?s)) =
          filter (\<lambda>k. k \<in> set (map key ?ts)) (taskOrder ?s) @
          filter (\<lambda>k. k \<notin> set (taskOrder ?s)) (map key ?ts)"
    using loadTasks_reconciles_order [OF h1, of "[]" ?p ?es True True] h2 h3 h4
    unfolding Let_def by blast
  also have "\<dots> = [''B'', ''D'']" unfolding h5 by simp
  finally show ?thesis using h1 h2 h3 h4 h5 by blast
qed

text \<open>
  Claim C2. Reconciling the result again with the same fetched tasks changes nothing, for
  every order and every fetched list; so a second refresh that fetches the same tasks leaves
  the order list as the first one made it. The new order list is a function of the old one
  and of the fetched tasks alone: two panels with the same order list get the same one.
\<close>

theorem reconcile_stable:
  "reconcile (reconcile order ts) ts = reconcile order ts \<and>
   (\<not> isLoading s \<longrightarrow>
      taskOrder (snd (loadTasks f' (Inr ts) ok' (snd (loadTasks f (Inr ts) ok s)))) =
      taskOrder (snd (loadTasks f (Inr ts) ok s))) \<and>
   (\<not> isLoading s \<and> \<not> isLoading s' \<and> taskOrder s = taskOrder s' \<longrightarrow>
      taskOrder (snd (loadTasks f (Inr ts) ok s)) =
      taskOrder (snd (loadTasks f' (Inr ts) ok' s')))"
proof (intro conjI impI)
  show "reconcile (reconcile order ts) ts = reconcile order ts" by (rule reconcile_idem)
next
  assume i: "\<not> isLoading s"
  then have "\<not> isLoading (snd (loadTasks f (Inr ts) ok s))" by (rule loadTasks_idle_after)
  then have "taskOrder (snd (loadTasks f' (Inr ts) ok' (snd (loadTasks f (Inr ts) ok s)))) =
      reconcile (taskOrder (snd (loadTasks f (Inr ts) ok s))) ts"
    by (rule loadTasks_fetched(1))
  then show "taskOrder (snd (loadTasks f' (Inr ts) ok' (snd (loadTasks f (Inr ts) ok s)))) =
      taskOrder (snd (loadTasks f (Inr ts) ok s))"
    using i by (simp add: loadTasks_fetched(1) reconcile_idem)
next
  assume "\<not> isLoading s \<and> \<not> isLoading s' \<and> taskOrder s = taskOrder s'"
  then show "taskOrder (snd (loadTasks f (Inr ts) ok s)) =
      taskOrder (snd (loadTasks f' (Inr ts) ok' s'))"
    by (simp add: loadTasks_fetched(1))
qed

theorem reconcile_stable_witness:
  "\<not> isLoading ((TaskManager_new None)\<lparr>taskOrder := [''A'', ''B'', ''C'']\<rparr>) \<and>
   taskOrder (snd (loadTasks True
        (Inr [\<lparr>key = ''B'', summary = [], url = []\<rparr>, \<lparr>key = ''D'', summary = [], url = []\<rparr>]) True
        ((TaskManager_new None)\<lparr>taskOrder := [''A'', ''B'', ''C'']\<rparr>))) = [''B'', ''D''] \<and>
   taskOrder (snd (loadTasks False
      (Inr [\<lparr>key = ''B'', summary = [], url = []\<rparr>, \<lparr>key = ''D'', summary = [], url = []\<rparr>]) True
      (snd (loadTasks True
        (Inr [\<lparr>key = ''B'', summary = [], url = []\<rparr>, \<lparr>key = ''D'', summary = [], url = []\<rparr>]) True
        ((TaskManager_new None)\<lparr>taskOrder := [''A'', ''B'', ''C'']\<rparr>))))) = [''B'', ''D'']"
proof -
  let ?ts = "[\<lparr>key = ''B'', summary = [], url = []\<rparr>, \<lparr>key = ''D'', summary = [], url = []\<rparr>]"
  let ?s = "(TaskManager_new None)\<lparr>taskOrder := [''A'', ''B'', ''C'']\<rparr>"
  have h: "\<not> isLoading ?s" by (simp add: TaskManager_new_def)
  have first: "taskOrder (snd (loadTasks True (Inr ?ts) True ?s)) = [''B'', ''D'']"
    using h by (simp add: loadTasks_fetched(1) reconcile_def)
  have "taskOrder (snd (loadTasks False (Inr ?ts) True (snd (loadTasks True (Inr ?ts) True ?s)))) =
        taskOrder (snd (loadTasks True (Inr ?ts) True ?s))"
    using reconcile_stable [of "[''A'', ''B'', ''C'']" ?ts ?s False True True True ?s] h
    by blast
  with first h show ?thesis by simp
qed

section \<open>Single flight\<close>

text \<open>
  Claim C3. A call of \<open>loadTasks\<close> made while the busy flag is set changes nothing and does
  not reach the tracker client. So when a refresh starts on an idle panel and no pending
  search or save settles before a second refresh is issued, whatever else happens in
  between, \<open>searchTasks\<close> has been invoked exactly once, by the first call. In every state the
  panel can reach from its construction at most one activation of \<open>loadTasks\<close> is suspended,
  and one is suspended exactly while the busy flag is set: fetch cycles do not overlap.
\<close>

theorem refresh_single_flight:
  "(isLoading s \<longrightarrow> loadTasks_call f s = (Some Fulfilled, s)) \<and>
   (\<not> isLoading s \<and> (\<forall>e \<in> set es. \<not> settles e) \<longrightarrow>
      searchCalls (run (Refresh f1 # es @ [Refresh f2]) s) = searchCalls s @ [f1]) \<and>
   length (pending (run es' (TaskManager_new persisted))) \<le> 1 \<and>
   (isLoading (run es' (TaskManager_new persisted)) \<longleftrightarrow>
      pending (run es' (TaskManager_new persisted)) \<noteq> [])"
proof (intro conjI impI)
  assume "isLoading s"
  then show "loadTasks_call f s = (Some Fulfilled, s)" by (simp add: loadTasks_call_def)
next
  assume a: "\<not> isLoading s \<and> (\<forall>e \<in> set es. \<not> settles e)"
  let ?s1 = "step (Refresh f1) s"
  from a have b: "isLoading ?s1" and c: "searchCalls ?s1 = searchCalls s @ [f1]"
    by (simp_all add: loadTasks_call_def doc_defs)
  from a have "\<forall>e \<in> set (es @ [Refresh f2]). \<not> settles e" by simp
  with b have "searchCalls (run (es @ [Refresh f2]) ?s1) = searchCalls ?s1"
    using run_busy [of ?s1 "es @ [Refresh f2]"] by blast
  with c show "searchCalls (run (Refresh f1 # es @ [Refresh f2]) s) = searchCalls s @ [f1]"
    by (simp add: run_Cons)
next
  have i: "single_flight (run es' (TaskManager_new persisted))"
    using single_flight_new by (rule run_single_flight)
  then show "length (pending (run es' (TaskManager_new persisted))) \<le> 1"
    by (simp add: single_flight_def split: if_splits)
  from i show "isLoading (run es' (TaskManager_new persisted)) \<longleftrightarrow>
      pending (run es' (TaskManager_new persisted)) \<noteq> []"
    by (auto simp: single_flight_def split: if_splits)
qed

text \<open>A refresh, a drop, and a second refresh before the first one settles.\<close>

theorem refresh_single_flight_witness:
  "\<not> isLoading (TaskManager_new None) \<and>
   \<not> settles (Drop [] True) \<and>
   searchCalls (run [Refresh True, Drop [] True, Refresh False] (TaskManager_new None)) = [True] \<and>
   isLoading (step (Refresh True) (TaskManager_new None)) \<and>
   loadTasks_call False (step (Refresh True) (TaskManager_new None)) =
     (Some Fulfilled, step (Refresh True) (TaskManager_new None))"
proof -
  have h1: "\<not> isLoading (TaskManager_new None)" by (simp add: TaskManager_new_def)
  have h2: "\<forall>e \<in> set [Drop [] True]. \<not> settles e" by simp
  have h3: "isLoading (step (Refresh True) (TaskManager_new None))"
    by (simp add: TaskManager_new_def loadTasks_call_def doc_defs)
  have "searchCalls (run (Refresh True # [Drop [] True] @ [Refresh False]) (TaskManager_new None)) =
          searchCalls (TaskManager_new None) @ [True]"
    using refresh_single_flight
      [of "TaskManager_new None" False "[Drop [] True]" True False "[]" None] h1 h2
    by blast
  then have a: "searchCalls (run [Refresh True, Drop [] True, Refresh False] (TaskManager_new None)) = [True]"
    by (simp add: TaskManager_new_def)
  have b: "loadTasks_call False (step (Refresh True) (TaskManager_new None)) =
     (Some Fulfilled, step (Refresh True) (TaskManager_new None))"
    using refresh_single_flight
      [of "step (Refresh True) (TaskManager_new None)" False "[]" True False "[]" None] h3
    by blast
  have h2': "\<not> settles (Drop [] True)" by simp
  from h1 h2' h3 a b show ?thesis by blast
qed

section \<open>Failed refresh\<close>

text \<open>
  Claim C5. When a refresh starts on an idle panel with a configured URL and the search is
  answered with status 401, the cycle ends with the promise fulfilled and the busy flag
  cleared; the error element shows \<open>Not authenticated. Please log in to JIRA first.\<close>; the
  tasks, the order list, the rendered cards and the stored order are what they were.
\<close>

theorem unauthenticated_refresh:
  assumes "\<not> isLoading s" and "jiraUrl \<noteq> []" and "status r = 401"
  shows "(let s' = snd (loadTasks f (searchTasks jiraUrl (Fetched r)) ok s) in
          fst (loadTasks f (searchTasks jiraUrl (Fetched r)) ok s) = Fulfilled \<and>
          \<not> isLoading s' \<and>
          errorText s' = ''Not authenticated. Please log in to JIRA first.'' \<and>
          \<not> errorHidden s' \<and>
          tasks s' = tasks s \<and> taskOrder s' = taskOrder s \<and>
          cards s' = cards s \<and> stored s' = stored s)"
  using assms
  by (simp add: searchTasks_401 loadTasks_failed loadTasks_settles Let_def)

theorem unauthenticated_refresh_witness:
  "\<not> isLoading ((TaskManager_new (Some [''D'', ''B'']))\<lparr>taskOrder := [''D'', ''B'']\<rparr>) \<and>
   ''https://jira.example.com'' \<noteq> [] \<and>
   status \<lparr>status = 401, statusText = ''Unauthorized'', errorBody = BodyUnreadable, issues = Inl []\<rparr> = 401 \<and>
   taskOrder (snd (loadTasks False
     (searchTasks ''https://jira.example.com''
        (Fetched \<lparr>status = 401, statusText = ''Unauthorized'', errorBody = BodyUnreadable, issues = Inl []\<rparr>))
     True ((TaskManager_new (Some [''D'', ''B'']))\<lparr>taskOrder := [''D'', ''B'']\<rparr>))) = [''D'', ''B''] \<and>
   errorText (snd (loadTasks False
     (searchTasks ''https://jira.example.com''
        (Fetched \<lparr>status = 401, statusText = ''Unauthorized'', errorBody = BodyUnreadable, issues = Inl []\<rparr>))
     True ((TaskManager_new (Some [''D'', ''B'']))\<lparr>taskOrder := [''D'', ''B'']\<rparr>))) =
     ''Not authenticated. Please log in to JIRA first.''"
proof -
  let ?s = "(TaskManager_new (Some [''D'', ''B'']))\<lparr>taskOrder := [''D'', ''B'']\<rparr>"
  let ?r = "\<lparr>status = 401, statusText = ''Unauthorized'', errorBody = BodyUnreadable, issues = Inl []\<rparr>"
  have h1: "\<not> isLoading ?s" by (simp add: TaskManager_new_def)
  have h2: "''https://jira.example.com'' \<noteq> []" by simp
  have h3: "status ?r = 401" by simp
  have "taskOrder (snd (loadTasks False (searchTasks ''https://jira.example.com'' (Fetched ?r)) True ?s)) = taskOrder ?s
      \<and> errorText (snd (loadTasks False (searchTasks ''https://jira.example.com'' (Fetched ?r)) True ?s)) =
          ''Not authenticated. Please log in to JIRA first.''"
    using unauthenticated_refresh [OF h1 h2 h3, of False True]
    unfolding Let_def by blast
  with h1 h2 h3 show ?thesis by simp
qed

text \<open>
  Claim C9. The promise of \<open>loadTasks\<close> is fulfilled whatever the call finds and whatever the
  search and the store answer: on the busy path, on success, on an empty result and on
  failure; none of its three pieces rejects. An error of the tracker client ends up as the
  text of the visible error element.
\<close>

theorem loadTasks_never_rejects:
  "fst (loadTasks f outcome ok s) = Fulfilled \<and>
   fst (loadTasks_call f s) \<noteq> Some (Rejected m) \<and>
   fst (loadTasks_searched outcome ok s) \<noteq> Some (Rejected m) \<and>
   fst (loadTasks_saved s) = Fulfilled \<and>
   (\<not> isLoading s \<longrightarrow>
      errorText (snd (loadTasks f (Inl message) ok s)) = message \<and>
      \<not> errorHidden (snd (loadTasks f (Inl message) ok s)))"
proof (intro conjI impI)
  show "fst (loadTasks f outcome ok s) = Fulfilled" by (rule loadTasks_settles)
  show "fst (loadTasks_call f s) \<noteq> Some (Rejected m)"
    by (simp add: loadTasks_call_def Let_def)
  show "fst (loadTasks_searched outcome ok s) \<noteq> Some (Rejected m)"
    by (simp add: loadTasks_searched_def Let_def split: sum.split)
  show "fst (loadTasks_saved s) = Fulfilled"
    by (simp add: loadTasks_saved_def Let_def)
next
  assume "\<not> isLoading s"
  then show "errorText (snd (loadTasks f (Inl message) ok s)) = message"
    by (rule loadTasks_failed(2))
next
  assume "\<not> isLoading s"
  then show "\<not> errorHidden (snd (loadTasks f (Inl message) ok s))"
    by (simp add: loadTasks_failed(3))
qed

theorem loadTasks_never_rejects_witness:
  "\<not> isLoading (TaskManager_new None) \<and>
   loadTasks False (Inl ''Failed to fetch'') True (TaskManager_new None) =
     (Fulfilled, (TaskManager_new None)\<lparr>errorText := ''Failed to fetch'', errorHidden := False,
                                         searchCalls := [False]\<rparr>)"
proof -
  have h: "\<not> isLoading (TaskManager_new None)" by (simp add: TaskManager_new_def)
  have a: "fst (loadTasks False (Inl ''Failed to fetch'') True (TaskManager_new None)) = Fulfilled"
    using loadTasks_never_rejects
      [of False "Inl ''Failed to fetch''" True "TaskManager_new None" "[]" "''Failed to fetch''"]
    by blast
  have b: "snd (loadTasks False (Inl ''Failed to fetch'') True (TaskManager_new None)) =
     (TaskManager_new None)\<lparr>errorText := ''Failed to fetch'', errorHidden := False,
                                         searchCalls := [False]\<rparr>"
    by (simp add: loadTasks_defs doc_defs TaskManager_new_def Let_def)
  from h a b show ?thesis by (simp add: prod_eq_iff)
qed

text \<open>
  Claim C4, at a failing refresh. A \<open>reload-tasks\<close> message arrives at an idle panel and the
  search is answered with status 401. \<open>loadTasks\<close> shows the error and its promise is
  fulfilled, so the listener takes its \<open>then\<close> branch: the one reply is the success
  acknowledgment, and the \<open>catch\<close> branch with the error payload is never taken.
\<close>

theorem reload_reply_after_failed_refresh:
  "onMessage ''reload-tasks''
     (searchTasks ''https://jira.example.com''
        (Fetched \<lparr>status = 401, statusText = ''Unauthorized'', errorBody = BodyUnreadable,
                  issues = Inl []\<rparr>))
     True (TaskManager_new None) =
   ([Reloaded],
    (TaskManager_new None)\<lparr>errorText := ''Not authenticated. Please log in to JIRA first.'',
                            errorHidden := False, searchCalls := [True]\<rparr>)"
  by (simp add: onMessage_def reload_reply_def searchTasks_def response_ok_def
        loadTasks_defs doc_defs TaskManager_new_def Let_def)

section \<open>Auto-refresh timer\<close>

text \<open>
  Claim C6. In every state the panel can reach from its construction at most one timer is
  active. The callback of \<open>setupAutoRefresh\<close> leaves exactly the timer it creates, or none
  when it creates none: a timer scheduled before is cancelled. After two invocations in a
  row there is one timer when the second finds auto-refresh enabled, and none when it finds
  it disabled.
\<close>

theorem at_most_one_timer:
  "length (timers (run es (TaskManager_new persisted))) \<le> 1 \<and>
   timers (setupAutoRefresh r (run es (TaskManager_new persisted))) =
     (if enabled r then [nextTimer (run es (TaskManager_new persisted))] else []) \<and>
   length (timers (run (es @ [AutoRefresh r', AutoRefresh r]) (TaskManager_new persisted))) =
     (if enabled r then 1 else 0)"
proof (intro conjI)
  let ?s = "run es (TaskManager_new persisted)"
  have i: "one_timer ?s" using one_timer_new by (rule run_one_timer)
  then show "length (timers ?s) \<le> 1"
    by (simp add: one_timer_def split: option.splits)
  from i show "timers (setupAutoRefresh r ?s) = (if enabled r then [nextTimer ?s] else [])"
    by (rule setupAutoRefresh_timers)
  have "one_timer (step (AutoRefresh r') ?s)" using i by (rule step_one_timer)
  then have "timers (setupAutoRefresh r (step (AutoRefresh r') ?s)) =
      (if enabled r then [nextTimer (step (AutoRefresh r') ?s)] else [])"
    by (rule setupAutoRefresh_timers)
  then show "length (timers (run (es @ [AutoRefresh r', AutoRefresh r]) (TaskManager_new persisted))) =
     (if enabled r then 1 else 0)"
    by (simp add: run_append run_Cons run_Nil)
qed

text \<open>
  Twice in a row from the constructed panel: enabled both times, the second timer replaces
  the first; enabled and then disabled, no timer is left.
\<close>

theorem at_most_one_timer_witness:
  "timers (run [AutoRefresh (Items (Some True)), AutoRefresh (Items None)] (TaskManager_new None)) = [2] \<and>
   length (timers (run ([] @ [AutoRefresh (Items (Some True)), AutoRefresh (Items None)])
                     (TaskManager_new None))) = 1 \<and>
   length (timers (run ([] @ [AutoRefresh (Items (Some True)), AutoRefresh (Items (Some False))])
                     (TaskManager_new None))) = 0"
proof -
  have a: "timers (run [AutoRefresh (Items (Some True)), AutoRefresh (Items None)]
                     (TaskManager_new None)) = [2]"
    by (simp add: run_def timer_defs TaskManager_new_def Let_def)
  have b: "length (timers (run ([] @ [AutoRefresh (Items (Some True)), AutoRefresh (Items None)])
                     (TaskManager_new None))) = 1"
    using at_most_one_timer [of "[]" None "Items None" "Items (Some True)"] by simp
  have c: "length (timers (run ([] @ [AutoRefresh (Items (Some True)), AutoRefresh (Items (Some False))])
                     (TaskManager_new None))) = 0"
    using at_most_one_timer [of "[]" None "Items (Some False)" "Items (Some True)"] by simp
  from a b c show ?thesis by blast
qed

section \<open>Restoring and saving the order\<close>

text \<open>
  Claim C7, for a read that delivers a result. \<open>loadTaskOrder\<close> never rejects. When the store
  answers the read, the promise is fulfilled and the order list is the stored list, or the
  empty list when nothing is stored.
\<close>

theorem loadTaskOrder_with_result:
  "fst (loadTaskOrder result s) \<noteq> Some (Rejected m) \<and>
   loadTaskOrder (storage_get True s) s =
     (Some Fulfilled, s\<lparr>taskOrder := (case stored s of Some ks \<Rightarrow> ks | None \<Rightarrow> [])\<rparr>) \<and>
   (stored s = Some ks \<longrightarrow> taskOrder (snd (loadTaskOrder (storage_get True s) s)) = ks) \<and>
   (stored s = None \<longrightarrow> taskOrder (snd (loadTaskOrder (storage_get True s) s)) = [])"
  by (simp add: loadTaskOrder_def storage_get_def split: get_result.split)

theorem loadTaskOrder_with_result_witness:
  "stored (TaskManager_new (Some [''D'', ''B''])) = Some [''D'', ''B''] \<and>
   taskOrder (snd (loadTaskOrder (storage_get True (TaskManager_new (Some [''D'', ''B''])))
                     (TaskManager_new (Some [''D'', ''B''])))) = [''D'', ''B''] \<and>
   stored (TaskManager_new None) = None \<and>
   taskOrder (snd (loadTaskOrder (storage_get True (TaskManager_new None)) (TaskManager_new None))) = []"
proof -
  have h1: "stored (TaskManager_new (Some [''D'', ''B''])) = Some [''D'', ''B'']"
    by (simp add: TaskManager_new_def)
  have h2: "stored (TaskManager_new None) = None"
    by (simp add: TaskManager_new_def)
  have a: "taskOrder (snd (loadTaskOrder (storage_get True (TaskManager_new (Some [''D'', ''B''])))
                     (TaskManager_new (Some [''D'', ''B''])))) = [''D'', ''B'']"
    using loadTaskOrder_with_result
      [of "storage_get True (TaskManager_new (Some [''D'', ''B'']))"
          "TaskManager_new (Some [''D'', ''B''])" "[]" "[''D'', ''B'']"] h1
    by blast
  have b: "taskOrder (snd (loadTaskOrder (storage_get True (TaskManager_new None)) (TaskManager_new None))) = []"
    using loadTaskOrder_with_result
      [of "storage_get True (TaskManager_new None)" "TaskManager_new None" "[]" "[]"] h2
    by blast
  from h1 h2 a b show ?thesis by blast
qed

text \<open>
  When the read fails, the callback has no result to read \<open>taskOrder\<close> from: \<open>resolve\<close> is not
  reached and the promise of \<open>loadTaskOrder\<close> never settles.
\<close>

theorem loadTaskOrder_failed_read_counterexample:
  "loadTaskOrder (storage_get False (TaskManager_new (Some [''D'', ''B''])))
     (TaskManager_new (Some [''D'', ''B''])) = (None, TaskManager_new (Some [''D'', ''B''])) \<and>
   fst (loadTaskOrder (storage_get False (TaskManager_new (Some [''D'', ''B''])))
     (TaskManager_new (Some [''D'', ''B'']))) \<noteq> Some Fulfilled"
  by (simp add: loadTaskOrder_def storage_get_def)

text \<open>
  Claim C8. A drop that leaves the cards in the order \<open>ks\<close> makes \<open>ks\<close> the order list, and
  \<open>ks\<close> is the value handed to the store, which holds it afterwards when it takes the
  write. The fetched tasks are untouched, and neither result depends on the order list or
  the tasks the panel had before.
\<close>

theorem updateTaskOrder_replaces_and_saves:
  "taskOrder (updateTaskOrder ok (s\<lparr>cards := ks\<rparr>)) = ks \<and>
   stored (updateTaskOrder ok (s\<lparr>cards := ks\<rparr>)) = (if ok then Some ks else stored s) \<and>
   tasks (updateTaskOrder ok (s\<lparr>cards := ks\<rparr>)) = tasks s \<and>
   taskOrder (step (Drop ks ok) s) = ks \<and>
   stored (step (Drop ks True) s) = Some ks \<and>
   stored (step (Drop ks True) s) = stored (step (Drop ks True) s')"
  by (simp add: updateTaskOrder_def saveTaskOrder_def storage_set_def)

theorem updateTaskOrder_replaces_and_saves_witness:
  "taskOrder (step (Drop [''D'', ''B''] True)
     (snd (loadTasks False (Inr [\<lparr>key = ''B'', summary = [], url = []\<rparr>,
                                 \<lparr>key = ''D'', summary = [], url = []\<rparr>]) True
        (TaskManager_new None)))) = [''D'', ''B''] \<and>
   stored (step (Drop [''D'', ''B''] True)
     (snd (loadTasks False (Inr [\<lparr>key = ''B'', summary = [], url = []\<rparr>,
                                 \<lparr>key = ''D'', summary = [], url = []\<rparr>]) True
        (TaskManager_new None)))) = Some [''D'', ''B'']"
  using updateTaskOrder_replaces_and_saves
    [where ok = True and ks = "[''D'', ''B'']" and s' = "TaskManager_new None" and
       s = "snd (loadTasks False (Inr [\<lparr>key = ''B'', summary = [], url = []\<rparr>,
                                 \<lparr>key = ''D'', summary = [], url = []\<rparr>]) True
        (TaskManager_new None))"]
  by blast

text \<open>
  Claim C10. With a non-empty order list, a refresh on an idle panel whose search returns no
  task reconciles the order to the empty list and saves it: the store then holds the empty
  list in place of the order it held, and a later \<open>loadTaskOrder\<close> restores the empty list.
\<close>

theorem empty_fetch_erases_order:
  assumes "taskOrder s \<noteq> []" and "\<not> isLoading s"
  shows "reconcile (taskOrder s) [] = [] \<and>
         fst (loadTasks f (Inr []) True s) = Fulfilled \<and>
         taskOrder (snd (loadTasks f (Inr []) True s)) = [] \<and>
         stored (snd (loadTasks f (Inr []) True s)) = Some [] \<and>
         taskOrder (snd (loadTaskOrder (storage_get True (snd (loadTasks f (Inr []) True s))) s')) = []"
proof -
  have r: "reconcile (taskOrder s) [] = []" by (simp add: reconcile_arranged)
  moreover have "taskOrder (snd (loadTasks f (Inr []) True s)) = []"
    using assms(2) r by (simp add: loadTasks_fetched(1))
  moreover have st: "stored (snd (loadTasks f (Inr []) True s)) = Some []"
    using assms(2) r by (simp add: loadTasks_fetched(3))
  moreover have "taskOrder (snd (loadTaskOrder (storage_get True (snd (loadTasks f (Inr []) True s))) s')) = []"
    using st by (simp add: loadTaskOrder_def storage_get_def)
  ultimately show ?thesis by (simp add: loadTasks_settles)
qed

theorem empty_fetch_erases_order_witness:
  "taskOrder ((TaskManager_new (Some [''D'', ''B'']))\<lparr>taskOrder := [''D'', ''B'']\<rparr>) \<noteq> [] \<and>
   \<not> isLoading ((TaskManager_new (Some [''D'', ''B'']))\<lparr>taskOrder := [''D'', ''B'']\<rparr>) \<and>
   stored ((TaskManager_new (Some [''D'', ''B'']))\<lparr>taskOrder := [''D'', ''B'']\<rparr>) = Some [''D'', ''B''] \<and>
   stored (snd (loadTasks False (Inr []) True
      ((TaskManager_new (Some [''D'', ''B'']))\<lparr>taskOrder := [''D'', ''B'']\<rparr>))) = Some []"
proof -
  let ?s = "(TaskManager_new (Some [''D'', ''B'']))\<lparr>taskOrder := [''D'', ''B'']\<rparr>"
  have h1: "taskOrder ?s \<noteq> []" by simp
  have h2: "\<not> isLoading ?s" by (simp add: TaskManager_new_def)
  have h3: "stored ?s = Some [''D'', ''B'']" by (simp add: TaskManager_new_def)
  have "stored (snd (loadTasks False (Inr []) True ?s)) = Some []"
    using empty_fetch_erases_order [OF h1 h2, of False ?s] by blast
  with h1 h2 h3 show ?thesis by blast
qed

end
